theory Spec2Isabelle
  imports Main "HOL-Library.Word"
begin

section \<open>The JNI bridge of native-lib.cpp\<close>

text \<open>
  The file holds one function,
  \<^verbatim>\<open>Java_com_landseek_amphibian_service_AmphibianNative_startNode\<close>. It reads a Java
  string array through the JNI, copies every element into a \<^verbatim>\<open>std::string\<close>, collects
  the \<^verbatim>\<open>c_str()\<close> pointers of the copies, and calls \<^verbatim>\<open>node::Start\<close> between two log
  lines. The JNI functions, \<^verbatim>\<open>node::Start\<close>, the logger and the standard containers
  are not code of the file: the JNI answers, \<^verbatim>\<open>node::Start\<close> and the growth policy of
  \<^verbatim>\<open>std::vector\<close> are parameters of the model, and the containers are modelled over an
  explicit store of character buffers.
\<close>

subsection \<open>Values, the store and the trace\<close>

text \<open>\<^verbatim>\<open>int\<close>, \<^verbatim>\<open>jint\<close> and \<^verbatim>\<open>jsize\<close> are 32-bit two's complement.\<close>

type_synonym jint = "32 word"

type_synonym addr = nat

text \<open>A \<^verbatim>\<open>char*\<close> is null or the address of a character buffer.\<close>

datatype char_p = NULL | Ptr addr

text \<open>
  A \<^verbatim>\<open>char**\<close> is null or points at the first of the given pointers; nothing can be read
  behind the last of them.
\<close>

datatype char_pp = NULL_pp | Array_pp "char_p list"

text \<open>
  What a call does to the outside: a call of \<^verbatim>\<open>__android_log_print\<close> with its priority,
  tag, format string and variadic arguments, or a call of \<^verbatim>\<open>node::Start\<close> with its two
  arguments.
\<close>

datatype event =
    android_log_print nat string string "jint list"
  | node_Start jint char_pp

text \<open>
  The store maps the address of every live character buffer to its bytes, terminator
  included; \<open>brk\<close> is the next address the allocator hands out.
\<close>

record state =
  heap :: "addr \<rightharpoonup> string"
  brk :: addr
  trace :: "event list"

datatype undefined_behaviour =
    string_from_null
  | read_of_dead_buffer
  | read_past_buffer
  | vector_index_out_of_range

definition NUL :: char where
  "NUL = CHR 0x00"

definition alloc :: "string \<Rightarrow> state \<Rightarrow> addr \<times> state" where
  "alloc bytes st =
     (brk st, st\<lparr>heap := (heap st)(brk st \<mapsto> bytes), brk := Suc (brk st)\<rparr>)"

definition free :: "addr \<Rightarrow> state \<Rightarrow> state" where
  "free a st = st\<lparr>heap := (heap st)(a := None)\<rparr>"

subsection \<open>The JNI functions the bridge calls\<close>

text \<open>
  The answers of the Java side during one call: the length an array reports, the element
  at an index, and the modified UTF-8 bytes of a string (without terminator), \<open>None\<close>
  where \<^verbatim>\<open>GetStringUTFChars\<close> fails and returns a null pointer.
\<close>

record ('arr, 'str) JNIEnv =
  ArrayLength :: "'arr \<Rightarrow> jint"
  ObjectArrayElement :: "'arr \<Rightarrow> jint \<Rightarrow> 'str"
  StringUTFChars :: "'str \<Rightarrow> string option"

definition GetArrayLength :: "('arr, 'str) JNIEnv \<Rightarrow> 'arr \<Rightarrow> jint" where
  "GetArrayLength env array = ArrayLength env array"

definition GetObjectArrayElement :: "('arr, 'str) JNIEnv \<Rightarrow> 'arr \<Rightarrow> jint \<Rightarrow> 'str" where
  "GetObjectArrayElement env array index = ObjectArrayElement env array index"

text \<open>On success the bytes are handed over in a fresh null-terminated buffer.\<close>

definition GetStringUTFChars ::
  "('arr, 'str) JNIEnv \<Rightarrow> 'str \<Rightarrow> state \<Rightarrow> char_p \<times> state" where
  "GetStringUTFChars env string st =
     (case StringUTFChars env string of
        None \<Rightarrow> (NULL, st)
      | Some bytes \<Rightarrow> (let (a, st') = alloc (bytes @ [NUL]) st in (Ptr a, st')))"

definition ReleaseStringUTFChars ::
  "('arr, 'str) JNIEnv \<Rightarrow> 'str \<Rightarrow> char_p \<Rightarrow> state \<Rightarrow> state" where
  "ReleaseStringUTFChars env string utf st =
     (case utf of NULL \<Rightarrow> st | Ptr a \<Rightarrow> free a st)"

subsection \<open>The standard containers\<close>

text \<open>
  \<open>c_string buf\<close> is the C string a buffer holds: the bytes in front of the first
  terminator. \<^verbatim>\<open>std::string(const char*)\<close> copies them into a buffer of its own. A
  string object is modelled by the address of its buffer. A null argument is undefined
  behaviour, and so is an argument that does not point at a terminated live buffer.
\<close>

definition c_string :: "string \<Rightarrow> string" where
  "c_string buf = takeWhile (\<lambda>c. c \<noteq> NUL) buf"

definition std_string :: "char_p \<Rightarrow> state \<Rightarrow> undefined_behaviour + (addr \<times> state)" where
  "std_string s st =
     (case s of
        NULL \<Rightarrow> Inl string_from_null
      | Ptr a \<Rightarrow>
          (case heap st a of
             None \<Rightarrow> Inl read_of_dead_buffer
           | Some buf \<Rightarrow>
               if NUL \<in> set buf
               then Inr (alloc (c_string buf @ [NUL]) st)
               else Inl read_past_buffer))"

definition c_str :: "addr \<Rightarrow> char_p" where
  "c_str s = Ptr s"

text \<open>
  When a \<^verbatim>\<open>std::vector<std::string>\<close> outgrows its capacity, it moves its elements into
  new storage. With the small-string optimisation the characters move along, so every
  pointer obtained from \<^verbatim>\<open>c_str()\<close> before is dead afterwards. \<open>move_string\<close> gives
  the buffer at \<open>a\<close> a new address and kills the old one.
\<close>

definition move_string :: "addr \<Rightarrow> state \<Rightarrow> addr \<times> state" where
  "move_string a st =
     (brk st,
      st\<lparr>heap := (heap st)(brk st := heap st a, a := None), brk := Suc (brk st)\<rparr>)"

fun relocate :: "addr list \<Rightarrow> state \<Rightarrow> addr list \<times> state" where
  "relocate [] st = ([], st)"
| "relocate (a # as) st =
     (let (a', st1) = move_string a st;
          (as', st2) = relocate as st1
      in (a' # as', st2))"

text \<open>
  \<^verbatim>\<open>args.push_back(std::string(...))\<close>: the temporary \<open>s\<close> becomes the last
  element. Whether the vector is full at a given size is left to the implementation:
  \<open>reallocates n\<close> says whether a \<^verbatim>\<open>push_back\<close> onto \<open>n\<close> elements moves them.
\<close>

definition push_back_string ::
  "(nat \<Rightarrow> bool) \<Rightarrow> addr list \<Rightarrow> addr \<Rightarrow> state \<Rightarrow> addr list \<times> state" where
  "push_back_string reallocates v s st =
     (if reallocates (length v)
      then (let (v', st') = relocate v st in (v' @ [s], st'))
      else (v @ [s], st))"

text \<open>\<^verbatim>\<open>args[i]\<close> with an \<^verbatim>\<open>int\<close> index; outside the vector it is undefined.\<close>

definition vector_at :: "addr list \<Rightarrow> jint \<Rightarrow> undefined_behaviour + addr" where
  "vector_at v i =
     (if 0 \<le>s i \<and> nat (sint i) < length v
      then Inr (v ! nat (sint i))
      else Inl vector_index_out_of_range)"

text \<open>
  \<^verbatim>\<open>argv.data()\<close>: a vector that never held an element owns no storage, and its data
  pointer is null.
\<close>

definition vector_data :: "char_p list \<Rightarrow> char_pp" where
  "vector_data v = (if v = [] then NULL_pp else Array_pp v)"

text \<open>The destructor of \<^verbatim>\<open>args\<close> releases the buffer of every element.\<close>

definition destroy_strings :: "addr list \<Rightarrow> state \<Rightarrow> state" where
  "destroy_strings v st = fold free v st"

subsection \<open>Logging\<close>

definition TAG :: string where
  "TAG = ''AmphibianJNI''"

text \<open>The priority \<^verbatim>\<open>ANDROID_LOG_DEBUG\<close> of \<^verbatim>\<open>android/log.h\<close>.\<close>

definition ANDROID_LOG_DEBUG :: nat where
  "ANDROID_LOG_DEBUG = 3"

definition LOGD :: "string \<Rightarrow> jint list \<Rightarrow> state \<Rightarrow> state" where
  "LOGD fmt va st =
     st\<lparr>trace := trace st @ [android_log_print ANDROID_LOG_DEBUG TAG fmt va]\<rparr>"

text \<open>
  The line the logger prints for a format string and its arguments: \<^verbatim>\<open>%d\<close> is the
  next argument as a signed decimal number, every other character is itself.
\<close>

function dec_nat :: "nat \<Rightarrow> string" where
  "dec_nat n =
     (if n < 10 then [''0123456789'' ! n]
      else dec_nat (n div 10) @ [''0123456789'' ! (n mod 10)])"
  by pat_completeness auto
termination
  by (relation "measure id") auto

definition dec_int :: "int \<Rightarrow> string" where
  "dec_int i = (if i < 0 then CHR ''-'' # dec_nat (nat (- i)) else dec_nat (nat i))"

fun format :: "string \<Rightarrow> jint list \<Rightarrow> string" where
  "format [] va = []"
| "format [c] va = [c]"
| "format (c # d # cs) va =
     (if c = CHR ''%'' \<and> d = CHR ''d''
      then (case va of
              [] \<Rightarrow> c # d # format cs va
            | x # va' \<Rightarrow> dec_int (sint x) @ format cs va')
      else c # format (d # cs) va)"

fun log_line :: "event \<Rightarrow> string option" where
  "log_line (android_log_print prio tag fmt va) = Some (format fmt va)"
| "log_line (node_Start argc argv) = None"

subsection \<open>The bridge\<close>

text \<open>
  The body of the first loop:
  \<^verbatim>\<open>
        jstring string = (jstring) env->GetObjectArrayElement(arguments, i);
        const char* rawString = env->GetStringUTFChars(string, 0);
        args.push_back(std::string(rawString));
        env->ReleaseStringUTFChars(string, rawString);
  \<close>
\<close>

definition convert_body ::
  "(nat \<Rightarrow> bool) \<Rightarrow> ('arr, 'str) JNIEnv \<Rightarrow> 'arr \<Rightarrow> jint \<Rightarrow> addr list \<Rightarrow> state
     \<Rightarrow> undefined_behaviour + (addr list \<times> state)" where
  "convert_body reallocates env arguments i args st =
     (let string = GetObjectArrayElement env arguments i;
          (rawString, st1) = GetStringUTFChars env string st
      in case std_string rawString st1 of
           Inl ub \<Rightarrow> Inl ub
         | Inr (tmp, st2) \<Rightarrow>
             (let (args', st3) = push_back_string reallocates args tmp st2
              in Inr (args', ReleaseStringUTFChars env string rawString st3)))"

text \<open>\<^verbatim>\<open>for (int i = 0; i < argc; i++) { ... }\<close>, entered with the current \<open>i\<close>.\<close>

function convert_loop ::
  "(nat \<Rightarrow> bool) \<Rightarrow> ('arr, 'str) JNIEnv \<Rightarrow> 'arr \<Rightarrow> jint \<Rightarrow> jint \<Rightarrow> addr list \<Rightarrow> state
     \<Rightarrow> undefined_behaviour + (addr list \<times> state)" where
  "convert_loop reallocates env arguments argc i args st =
     (if i <s argc then
        (case convert_body reallocates env arguments i args st of
           Inl ub \<Rightarrow> Inl ub
         | Inr (args', st') \<Rightarrow> convert_loop reallocates env arguments argc (i + 1) args' st')
      else Inr (args, st))"
  by pat_completeness auto
termination
proof (relation "measure (\<lambda>(reallocates, env, arguments, argc, i, args, st).
                   nat (sint argc - sint i))")
  show "wf (measure (\<lambda>(reallocates :: nat \<Rightarrow> bool, env :: ('arr, 'str) JNIEnv,
                       arguments :: 'arr, argc :: jint, i :: jint, args :: addr list,
                       st :: state). nat (sint argc - sint i)))"
    by simp
next
  fix reallocates :: "nat \<Rightarrow> bool" and env :: "('arr, 'str) JNIEnv" and arguments :: 'arr
    and argc i :: jint and args :: "addr list" and st :: state and x y
  assume less: "i <s argc"
  have lt: "sint i < sint argc"
    using less by (simp add: word_sless_alt)
  have ub: "sint argc < 2 ^ 31"
    using sint_lt [of argc] by simp
  have lb: "- (2 ^ 31) \<le> sint i"
    using sint_ge [of i] by simp
  have "sint (i + 1) = signed_take_bit 31 (sint i + 1)"
    by (simp add: sint_word_ariths)
  also have "\<dots> = sint i + 1"
    using lt ub lb by (intro signed_take_bit_int_eq_self) auto
  finally have "sint (i + 1) = sint i + 1" .
  with lt show "((reallocates, env, arguments, argc, i + 1, x, y),
                 (reallocates, env, arguments, argc, i, args, st))
                \<in> measure (\<lambda>(reallocates, env, arguments, argc, i, args, st).
                     nat (sint argc - sint i))"
    by simp
qed

text \<open>
  \<^verbatim>\<open>
    for (int i = 0; i < argc; i++) {
        argv.push_back(const_cast<char*>(args[i].c_str()));
    }
  \<close>
  The vector \<open>argv\<close> is the list of its elements: nothing points into its storage
  before \<^verbatim>\<open>data()\<close> is taken, after the loop.
\<close>

function build_loop ::
  "jint \<Rightarrow> jint \<Rightarrow> addr list \<Rightarrow> char_p list \<Rightarrow> undefined_behaviour + char_p list" where
  "build_loop argc i args argv =
     (if i <s argc then
        (case vector_at args i of
           Inl ub \<Rightarrow> Inl ub
         | Inr s \<Rightarrow> build_loop argc (i + 1) args (argv @ [c_str s]))
      else Inr argv)"
  by pat_completeness auto
termination
proof (relation "measure (\<lambda>(argc, i, args, argv). nat (sint argc - sint i))")
  show "wf (measure (\<lambda>(argc :: jint, i :: jint, args :: addr list, argv :: char_p list).
                       nat (sint argc - sint i)))"
    by simp
next
  fix argc i :: jint and args :: "addr list" and argv :: "char_p list" and s :: addr
  assume less: "i <s argc"
  have lt: "sint i < sint argc"
    using less by (simp add: word_sless_alt)
  have ub: "sint argc < 2 ^ 31"
    using sint_lt [of argc] by simp
  have lb: "- (2 ^ 31) \<le> sint i"
    using sint_ge [of i] by simp
  have "sint (i + 1) = signed_take_bit 31 (sint i + 1)"
    by (simp add: sint_word_ariths)
  also have "\<dots> = sint i + 1"
    using lt ub lb by (intro signed_take_bit_int_eq_self) auto
  finally have "sint (i + 1) = sint i + 1" .
  with lt show "((argc, i + 1, args, argv @ [c_str s]), (argc, i, args, argv))
                \<in> measure (\<lambda>(argc, i, args, argv). nat (sint argc - sint i))"
    by simp
qed

text \<open>
  The marshalling part of the function: the declarations of \<^verbatim>\<open>args\<close> and \<^verbatim>\<open>argv\<close>
  and the two loops.
\<close>

definition marshal ::
  "(nat \<Rightarrow> bool) \<Rightarrow> ('arr, 'str) JNIEnv \<Rightarrow> 'arr \<Rightarrow> jint \<Rightarrow> state
     \<Rightarrow> undefined_behaviour + (addr list \<times> char_p list \<times> state)" where
  "marshal reallocates env arguments argc st =
     (case convert_loop reallocates env arguments argc 0 [] st of
        Inl ub \<Rightarrow> Inl ub
      | Inr (args, st1) \<Rightarrow>
          (case build_loop argc 0 args [] of
             Inl ub \<Rightarrow> Inl ub
           | Inr argv \<Rightarrow> Inr (args, argv, st1)))"

text \<open>
  \<^verbatim>\<open>node::Start\<close> is a parameter: a function of its two arguments and of the store it
  can read through them. The call is recorded in the trace.
\<close>

type_synonym node = "jint \<Rightarrow> char_pp \<Rightarrow> (addr \<rightharpoonup> string) \<Rightarrow> jint"

definition call_node_Start :: "node \<Rightarrow> jint \<Rightarrow> char_pp \<Rightarrow> state \<Rightarrow> jint \<times> state" where
  "call_node_Start node_start argc argv st =
     (node_start argc argv (heap st), st\<lparr>trace := trace st @ [node_Start argc argv]\<rparr>)"

text \<open>
  The whole function. At the \<^verbatim>\<open>return\<close> the destructors of \<^verbatim>\<open>argv\<close> and \<^verbatim>\<open>args\<close>
  run.
\<close>

definition Java_com_landseek_amphibian_service_AmphibianNative_startNode ::
  "(nat \<Rightarrow> bool) \<Rightarrow> node \<Rightarrow> ('arr, 'str) JNIEnv \<Rightarrow> 'arr \<Rightarrow> state
     \<Rightarrow> undefined_behaviour + (jint \<times> state)" where
  "Java_com_landseek_amphibian_service_AmphibianNative_startNode
       reallocates node_start env arguments st =
     (let argc = GetArrayLength env arguments in
      case marshal reallocates env arguments argc st of
        Inl ub \<Rightarrow> Inl ub
      | Inr (args, argv, st1) \<Rightarrow>
          (let st2 = LOGD ''Starting Embedded Node.js...'' [] st1;
               (result, st3) = call_node_Start node_start argc (vector_data argv) st2;
               st4 = LOGD ''Node.js exited with code: %d'' [result] st3;
               st5 = destroy_strings args st4
           in Inr (result, st5)))"

abbreviation startNode ::
  "(nat \<Rightarrow> bool) \<Rightarrow> node \<Rightarrow> ('arr, 'str) JNIEnv \<Rightarrow> 'arr \<Rightarrow> state
     \<Rightarrow> undefined_behaviour + (jint \<times> state)" where
  "startNode \<equiv> Java_com_landseek_amphibian_service_AmphibianNative_startNode"

subsection \<open>Notions used to state the properties\<close>

text \<open>The two log calls of the function, as they appear in the trace.\<close>

definition starting_line :: event where
  "starting_line =
     android_log_print ANDROID_LOG_DEBUG TAG ''Starting Embedded Node.js...'' []"

definition exited_line :: "jint \<Rightarrow> event" where
  "exited_line result =
     android_log_print ANDROID_LOG_DEBUG TAG ''Node.js exited with code: %d'' [result]"

fun is_node_Start :: "event \<Rightarrow> bool" where
  "is_node_Start (node_Start argc argv) = True"
| "is_node_Start (android_log_print prio tag fmt va) = False"

text \<open>
  What the Java array holds, read through the JNI answers: the bytes of the elements at
  the indices \<open>0, \<dots>, argc - 1\<close>, in order; none when \<open>argc\<close> is not positive.
\<close>

definition java_strings :: "('arr, 'str) JNIEnv \<Rightarrow> 'arr \<Rightarrow> string option list" where
  "java_strings env arguments =
     map (\<lambda>k. StringUTFChars env (ObjectArrayElement env arguments (of_nat k)))
       [0..<nat (sint (ArrayLength env arguments))]"

text \<open>What can be read at a \<^verbatim>\<open>char*\<close>, and at index \<open>k\<close> of a \<^verbatim>\<open>char**\<close>.\<close>

fun deref :: "(addr \<rightharpoonup> string) \<Rightarrow> char_p \<Rightarrow> string option" where
  "deref h NULL = None"
| "deref h (Ptr a) = h a"

fun index_pp :: "char_pp \<Rightarrow> nat \<Rightarrow> char_p option" where
  "index_pp NULL_pp k = None"
| "index_pp (Array_pp ps) k = (if k < length ps then Some (ps ! k) else None)"

fun entries :: "char_pp \<Rightarrow> char_p list" where
  "entries NULL_pp = []"
| "entries (Array_pp ps) = ps"

text \<open>
  The vector \<open>args\<close> owns its buffers in \<open>st\<close>, relative to the state \<open>st0\<close> at the
  entry of the function: the buffers are distinct and were allocated since, no other
  address handed out since is live, and the rest of the store and the trace are as they
  were.
\<close>

definition owns :: "state \<Rightarrow> addr list \<Rightarrow> state \<Rightarrow> bool" where
  "owns st0 args st \<longleftrightarrow>
     distinct args \<and> set args \<subseteq> {brk st0..<brk st} \<and> brk st0 \<le> brk st \<and>
     trace st = trace st0 \<and>
     (\<forall>a. a \<notin> set args \<longrightarrow>
          heap st a = (if brk st0 \<le> a \<and> a < brk st then None else heap st0 a))"

subsection \<open>A Java side and a store for concrete runs\<close>

text \<open>
  An array is the list of its elements; an element is its modified UTF-8 bytes, or
  \<open>None\<close> for an element that \<^verbatim>\<open>GetStringUTFChars\<close> cannot convert. The store is
  empty at the start.
\<close>

definition list_env :: "(string option list, string option) JNIEnv" where
  "list_env =
     \<lparr>ArrayLength = (\<lambda>a. of_nat (length a)),
      ObjectArrayElement = (\<lambda>a i. a ! unat i),
      StringUTFChars = (\<lambda>s. s)\<rparr>"

definition empty_state :: state where
  "empty_state = \<lparr>heap = Map.empty, brk = 0, trace = []\<rparr>"

text \<open>A vector that moves its elements at every \<^verbatim>\<open>push_back\<close>, and a runtime that exits with 0.\<close>

definition always_reallocates :: "nat \<Rightarrow> bool" where
  "always_reallocates n = True"

definition node_exit_0 :: node where
  "node_exit_0 argc argv h = 0"

section \<open>Properties\<close>

subsection \<open>Moving a vector's strings\<close>

lemma relocate_fst: "fst (relocate v st) = [brk st..<brk st + length v]"
proof (induction v arbitrary: st)
  case Nil
  show ?case by simp
next
  case (Cons a v)
  have "brk st < brk st + length (a # v)"
    by simp
  then have "[brk st..<brk st + length (a # v)] = brk st # [Suc (brk st)..<brk st + length (a # v)]"
    by (rule upt_conv_Cons)
  then show ?case
    using Cons.IH [of "snd (move_string a st)"]
    by (simp add: move_string_def split_beta)
qed

lemma relocate_brk: "brk (snd (relocate v st)) = brk st + length v"
proof (induction v arbitrary: st)
  case Nil
  show ?case by simp
next
  case (Cons a v)
  show ?case
    using Cons.IH [of "snd (move_string a st)"]
    by (simp add: move_string_def split_beta)
qed

lemma relocate_trace: "trace (snd (relocate v st)) = trace st"
proof (induction v arbitrary: st)
  case Nil
  show ?case by simp
next
  case (Cons a v)
  show ?case
    using Cons.IH [of "snd (move_string a st)"]
    by (simp add: move_string_def split_beta)
qed

lemma relocate_heap:
  "distinct v \<Longrightarrow> \<forall>a\<in>set v. a < brk st \<Longrightarrow>
   heap (snd (relocate v st)) a =
     (if a \<in> set v then None
      else if brk st \<le> a \<and> a < brk st + length v then heap st (v ! (a - brk st))
      else heap st a)"
proof (induction v arbitrary: st)
  case Nil
  show ?case by auto
next
  case (Cons b v)
  let ?st1 = "snd (move_string b st)"
  have brk1: "brk ?st1 = Suc (brk st)"
    by (simp add: move_string_def)
  have heap1: "heap ?st1 = (heap st)(brk st := heap st b, b := None)"
    by (simp add: move_string_def)
  have d: "distinct v" and bnd: "\<forall>a\<in>set v. a < brk ?st1"
    using Cons.prems by (auto simp: brk1)
  have step: "relocate (b # v) st = (brk st # fst (relocate v ?st1), snd (relocate v ?st1))"
    by (simp add: move_string_def split_beta)
  have below: "v ! j < brk st \<and> v ! j \<noteq> b" if "j < length v" for j
    using Cons.prems that nth_mem [of j v] by auto
  have moved: "Suc (brk st) \<le> a \<and> a < Suc (brk st + length v) \<longrightarrow>
      v ! (a - Suc (brk st)) < brk st \<and> v ! (a - Suc (brk st)) \<noteq> b"
  proof
    assume "Suc (brk st) \<le> a \<and> a < Suc (brk st + length v)"
    then have "a - Suc (brk st) < length v"
      by arith
    then show "v ! (a - Suc (brk st)) < brk st \<and> v ! (a - Suc (brk st)) \<noteq> b"
      by (rule below)
  qed
  show ?case
    unfolding step snd_conv Cons.IH [OF d bnd] brk1 heap1
    using Cons.prems moved
    by (auto simp: nth_Cons' Suc_diff_le)
qed


subsection \<open>One iteration of the first loop\<close>

text \<open>
  When the element converts, an iteration appends its C string to \<open>args\<close> and keeps
  \<open>args\<close> the owner of its buffers: the buffer of the JNI is gone again, and after a
  reallocation the old addresses are dead and the strings live at new ones.
\<close>

lemma c_string_terminated: "c_string (bs @ [NUL]) = c_string bs"
  by (induction bs) (auto simp: c_string_def)

lemma convert_body_Some:
  assumes own: "owns st0 args st"
    and utf: "StringUTFChars env (ObjectArrayElement env arguments i) = Some bs"
  shows "\<exists>args' st'. convert_body reallocates env arguments i args st = Inr (args', st') \<and>
           owns st0 args' st' \<and>
           map (heap st') args' = map (heap st) args @ [Some (c_string bs @ [NUL])]"
proof -
  define st1 where "st1 = st\<lparr>heap := (heap st)(brk st \<mapsto> bs @ [NUL]), brk := Suc (brk st)\<rparr>"
  define st2 where "st2 = st1\<lparr>heap := (heap st1)(Suc (brk st) \<mapsto> c_string bs @ [NUL]),
                            brk := Suc (Suc (brk st))\<rparr>"
  have raw: "GetStringUTFChars env (GetObjectArrayElement env arguments i) st = (Ptr (brk st), st1)"
    by (simp add: GetStringUTFChars_def GetObjectArrayElement_def utf alloc_def st1_def)
  have str: "std_string (Ptr (brk st)) st1 = Inr (Suc (brk st), st2)"
    by (simp add: std_string_def st1_def st2_def alloc_def c_string_terminated)
  have d: "distinct args" and below: "\<forall>a\<in>set args. a < brk st" and above: "\<forall>a\<in>set args. brk st0 \<le> a"
    and le: "brk st0 \<le> brk st" and tr: "trace st = trace st0"
    and rest: "\<And>a. a \<notin> set args \<Longrightarrow>
          heap st a = (if brk st0 \<le> a \<and> a < brk st then None else heap st0 a)"
    using own by (auto simp: owns_def)
  show ?thesis
  proof (cases "reallocates (length args)")
    case False
    define st' where "st' = free (brk st) st2"
    have body: "convert_body reallocates env arguments i args st = Inr (args @ [Suc (brk st)], st')"
      by (simp add: convert_body_def raw str push_back_string_def False
          ReleaseStringUTFChars_def st'_def)
    have heap': "heap st' = (heap st)(brk st := None, Suc (brk st) \<mapsto> c_string bs @ [NUL])"
      by (auto simp: st'_def free_def st2_def st1_def)
    have brk': "brk st' = Suc (Suc (brk st))" and tr': "trace st' = trace st"
      by (simp_all add: st'_def free_def st2_def st1_def)
    have "owns st0 (args @ [Suc (brk st)]) st'"
      unfolding owns_def heap' brk' tr'
      using d below above le tr rest by (auto simp: less_Suc_eq)
    moreover have "map (heap st') (args @ [Suc (brk st)]) =
        map (heap st) args @ [Some (c_string bs @ [NUL])]"
      unfolding heap' using below by auto
    ultimately show ?thesis
      using body by blast
  next
    case True
    define b where "b = brk st2"
    have b: "b = Suc (Suc (brk st))"
      by (simp add: b_def st2_def)
    have below2: "\<forall>a\<in>set args. a < brk st2"
      using below by (auto simp: st2_def)
    define st3 where "st3 = snd (relocate args st2)"
    define args' where "args' = [b..<b + length args]"
    define st' where "st' = free (brk st) st3"
    have rel: "relocate args st2 = (args', st3)"
      using relocate_fst [of args st2]
      by (simp add: st3_def args'_def b_def prod_eq_iff)
    have body: "convert_body reallocates env arguments i args st = Inr (args' @ [Suc (brk st)], st')"
      by (simp add: convert_body_def raw str push_back_string_def True rel
          ReleaseStringUTFChars_def st'_def)
    have heap3: "heap st3 a =
        (if a \<in> set args then None
         else if b \<le> a \<and> a < b + length args then heap st2 (args ! (a - b))
         else heap st2 a)" for a
      using relocate_heap [OF d below2, of a] by (simp add: st3_def b_def)
    have heap2: "heap st2 = (heap st)(brk st \<mapsto> bs @ [NUL], Suc (brk st) \<mapsto> c_string bs @ [NUL])"
      by (simp add: st2_def st1_def)
    have brk': "brk st' = b + length args"
      using relocate_brk [of args st2] by (simp add: st'_def free_def st3_def b_def)
    have tr': "trace st' = trace st"
      using relocate_trace [of args st2] by (simp add: st'_def free_def st3_def st2_def st1_def)
    have heap': "heap st' a = (if a = brk st then None else heap st3 a)" for a
      by (simp add: st'_def free_def)
    have nth_below: "args ! j \<noteq> brk st \<and> args ! j \<noteq> Suc (brk st)" if "j < length args" for j
      using below nth_mem [OF that] by fastforce
    have fresh: "b + j \<notin> set args" for j
      using below by (auto simp: b)
    have moved: "heap st' (b + j) = heap st (args ! j)" if "j < length args" for j
      using that nth_below [OF that] fresh [of j]
      by (simp add: heap' heap3 heap2 b)
    have "map (heap st') args' = map (heap st) args"
      by (rule nth_equalityI) (simp_all add: args'_def moved del: upt_Suc)
    moreover have "heap st' (Suc (brk st)) = Some (c_string bs @ [NUL])"
      using below by (auto simp: heap' heap3 heap2 b)
    ultimately have contents: "map (heap st') (args' @ [Suc (brk st)]) =
        map (heap st) args @ [Some (c_string bs @ [NUL])]"
      by simp
    have set': "set args' = {b..<b + length args}"
      by (simp add: args'_def del: upt_Suc)
    have "distinct (args' @ [Suc (brk st)])"
      by (simp add: set' del: upt_Suc) (simp add: args'_def b del: upt_Suc)
    moreover have "set (args' @ [Suc (brk st)]) \<subseteq> {brk st0..<brk st'}"
      using le by (auto simp: set' brk' b)
    moreover have "brk st0 \<le> brk st'"
      using le by (simp add: brk' b)
    moreover have "heap st' a = (if brk st0 \<le> a \<and> a < brk st' then None else heap st0 a)"
      if "a \<notin> set (args' @ [Suc (brk st)])" for a
      using that rest [of a] le above below
      by (auto simp: set' brk' heap' heap3 heap2 b)
    ultimately have "owns st0 (args' @ [Suc (brk st)]) st'"
      unfolding owns_def tr' tr by blast
    with contents body show ?thesis
      by blast
  qed
qed


subsection \<open>The loop counter\<close>

text \<open>
  The counter runs through \<open>0, \<dots>, nat (sint argc) - 1\<close> without overflow, and the loop
  stops at \<open>nat (sint argc)\<close>; for a non-positive \<open>argc\<close> it stops at once.
\<close>

lemma sint_of_nat_small:
  assumes "int k < 2 ^ 31"
  shows "sint (of_nat k :: jint) = int k"
proof -
  have "sint (of_nat k :: jint) = signed_take_bit 31 (int k)"
    by (simp add: signed_of_nat)
  also have "\<dots> = int k"
    using assms by (intro signed_take_bit_int_eq_self) auto
  finally show ?thesis .
qed

lemma index_less:
  fixes argc :: jint
  assumes "k < nat (sint argc)"
  shows "(of_nat k :: jint) <s argc" and "sint (of_nat k :: jint) = int k"
proof -
  have "sint argc < 2 ^ 31"
    using sint_lt [of argc] by simp
  with assms have small: "int k < 2 ^ 31"
    by linarith
  show "sint (of_nat k :: jint) = int k"
    by (rule sint_of_nat_small [OF small])
  with assms show "(of_nat k :: jint) <s argc"
    by (simp add: word_sless_alt)
qed

lemma index_done:
  fixes argc :: jint
  shows "\<not> (of_nat (nat (sint argc)) :: jint) <s argc"
proof (cases "0 \<le> sint argc")
  case True
  have "sint argc < 2 ^ 31"
    using sint_lt [of argc] by simp
  with True have "sint (of_nat (nat (sint argc)) :: jint) = sint argc"
    by (simp add: sint_of_nat_small)
  then show ?thesis
    by (simp add: word_sless_alt)
next
  case False
  then show ?thesis
    by (simp add: word_sless_alt)
qed


subsection \<open>The first loop\<close>

lemma convert_body_None:
  assumes "StringUTFChars env (ObjectArrayElement env arguments i) = None"
  shows "convert_body reallocates env arguments i args st = Inl string_from_null"
  using assms
  by (simp add: convert_body_def GetStringUTFChars_def GetObjectArrayElement_def std_string_def)

lemma convert_body_Inl:
  assumes "convert_body reallocates env arguments i args st = Inl ub"
  shows "ub = string_from_null \<and> StringUTFChars env (ObjectArrayElement env arguments i) = None"
proof (cases "StringUTFChars env (ObjectArrayElement env arguments i)")
  case None
  with assms convert_body_None [OF None, of reallocates args st] show ?thesis
    by simp
next
  case (Some bs)
  define st1 where "st1 = st\<lparr>heap := (heap st)(brk st \<mapsto> bs @ [NUL]), brk := Suc (brk st)\<rparr>"
  have raw: "GetStringUTFChars env (GetObjectArrayElement env arguments i) st = (Ptr (brk st), st1)"
    by (simp add: GetStringUTFChars_def GetObjectArrayElement_def Some alloc_def st1_def)
  have str: "\<exists>r. std_string (Ptr (brk st)) st1 = Inr r"
    by (simp add: std_string_def st1_def)
  then obtain tmp st2 where "std_string (Ptr (brk st)) st1 = Inr (tmp, st2)"
    by auto
  then have "\<exists>r. convert_body reallocates env arguments i args st = Inr r"
    by (simp add: convert_body_def raw split_beta)
  with assms show ?thesis
    by simp
qed

lemma convert_loop_from:
  assumes "owns st0 args st" and "k \<le> nat (sint argc)"
    and "\<forall>j. k \<le> j \<and> j < nat (sint argc) \<longrightarrow>
           StringUTFChars env (ObjectArrayElement env arguments (of_nat j)) = Some (bss ! j)"
  shows "\<exists>args' st'. convert_loop reallocates env arguments argc (of_nat k) args st = Inr (args', st') \<and>
           owns st0 args' st' \<and>
           map (heap st') args' =
             map (heap st) args @ map (\<lambda>j. Some (c_string (bss ! j) @ [NUL])) [k..<nat (sint argc)]"
  using assms
proof (induction "nat (sint argc) - k" arbitrary: k args st)
  case 0
  then have k: "k = nat (sint argc)"
    by simp
  have "convert_loop reallocates env arguments argc (of_nat k) args st = Inr (args, st)"
    using index_done [of argc] by (simp add: k)
  with "0.prems"(1) show ?case
    by (simp add: k)
next
  case (Suc n)
  then have less: "k < nat (sint argc)"
    by simp
  have utf: "StringUTFChars env (ObjectArrayElement env arguments (of_nat k)) = Some (bss ! k)"
    using Suc.prems(3) less by simp
  obtain args1 st1 where
    body: "convert_body reallocates env arguments (of_nat k) args st = Inr (args1, st1)"
    and own1: "owns st0 args1 st1"
    and map1: "map (heap st1) args1 = map (heap st) args @ [Some (c_string (bss ! k) @ [NUL])]"
    using convert_body_Some [OF Suc.prems(1) utf] by blast
  have step: "convert_loop reallocates env arguments argc (of_nat k) args st =
      convert_loop reallocates env arguments argc (of_nat (Suc k)) args1 st1"
    using index_less(1) [OF less] by (simp add: body add.commute)
  have "n = nat (sint argc) - Suc k"
    using Suc.hyps(2) by simp
  moreover have "Suc k \<le> nat (sint argc)"
    using less by simp
  moreover have "\<forall>j. Suc k \<le> j \<and> j < nat (sint argc) \<longrightarrow>
      StringUTFChars env (ObjectArrayElement env arguments (of_nat j)) = Some (bss ! j)"
    using Suc.prems(3) by simp
  ultimately obtain args' st' where
    loop: "convert_loop reallocates env arguments argc (of_nat (Suc k)) args1 st1 = Inr (args', st')"
    and own': "owns st0 args' st'"
    and map': "map (heap st') args' =
        map (heap st1) args1 @
        map (\<lambda>j. Some (c_string (bss ! j) @ [NUL])) [Suc k..<nat (sint argc)]"
    using Suc.hyps(1) [OF _ own1] by blast
  have "[k..<nat (sint argc)] = k # [Suc k..<nat (sint argc)]"
    using less by (rule upt_conv_Cons)
  with map' map1 have "map (heap st') args' =
      map (heap st) args @ map (\<lambda>j. Some (c_string (bss ! j) @ [NUL])) [k..<nat (sint argc)]"
    by simp
  with loop own' step show ?case
    by simp
qed

lemma convert_loop_fails:
  assumes "k \<le> m" and "m < nat (sint argc)"
    and "StringUTFChars env (ObjectArrayElement env arguments (of_nat m)) = None"
  shows "convert_loop reallocates env arguments argc (of_nat k) args st = Inl string_from_null"
  using assms
proof (induction "m - k" arbitrary: k args st)
  case 0
  then have k: "k = m"
    by simp
  show ?case
    using index_less(1) [OF "0.prems"(2)] "0.prems"(3)
    by (simp add: k convert_body_None)
next
  case (Suc n)
  then have less: "k < nat (sint argc)" and next_le: "Suc k \<le> m" and n: "n = m - Suc k"
    by simp_all
  have rest: "convert_loop reallocates env arguments argc (of_nat (Suc k)) args' st' =
      Inl string_from_null" for args' st'
    using Suc.hyps(1) [OF n next_le Suc.prems(2) Suc.prems(3)] .
  show ?case
  proof (cases "convert_body reallocates env arguments (of_nat k) args st")
    case (Inl ub)
    have "ub = string_from_null"
      using convert_body_Inl [OF Inl] by simp
    with Inl index_less(1) [OF less] show ?thesis
      by simp
  next
    case (Inr r)
    with index_less(1) [OF less] rest show ?thesis
      by (cases r) (simp add: add.commute)
  qed
qed

subsection \<open>The second loop and the marshalling as a whole\<close>

lemma vector_at_index:
  fixes argc :: jint
  assumes "k < nat (sint argc)" and "length args = nat (sint argc)"
  shows "vector_at args (of_nat k) = Inr (args ! k)"
  using assms index_less(2) [OF assms(1)]
  by (simp add: vector_at_def word_sle_eq)

lemma build_loop_from:
  assumes "length args = nat (sint argc)" and "k \<le> nat (sint argc)"
  shows "build_loop argc (of_nat k) args argv = Inr (argv @ map Ptr (drop k args))"
  using assms
proof (induction "nat (sint argc) - k" arbitrary: k argv)
  case 0
  then have k: "k = nat (sint argc)"
    by simp
  show ?case
    using index_done [of argc] "0.prems"(1) by (simp add: k)
next
  case (Suc n)
  then have less: "k < nat (sint argc)"
    by simp
  have n: "n = nat (sint argc) - Suc k"
    using Suc.hyps(2) by simp
  have le: "Suc k \<le> nat (sint argc)"
    using less by simp
  have "build_loop argc (of_nat k) args argv =
      build_loop argc (of_nat (Suc k)) args (argv @ [Ptr (args ! k)])"
    using index_less(1) [OF less] vector_at_index [OF less Suc.prems(1)]
    by (simp add: c_str_def add.commute)
  also have "\<dots> = Inr ((argv @ [Ptr (args ! k)]) @ map Ptr (drop (Suc k) args))"
    by (rule Suc.hyps(1) [OF n Suc.prems(1) le])
  also have "(argv @ [Ptr (args ! k)]) @ map Ptr (drop (Suc k) args) = argv @ map Ptr (drop k args)"
    using less Suc.prems(1) by (simp add: Cons_nth_drop_Suc [symmetric])
  finally show ?case .
qed

lemma java_strings_nth:
  assumes "java_strings env arguments = map Some bss"
  shows "length bss = nat (sint (ArrayLength env arguments))"
    and "j < nat (sint (ArrayLength env arguments)) \<Longrightarrow>
         StringUTFChars env (ObjectArrayElement env arguments (of_nat j)) = Some (bss ! j)"
proof -
  show len: "length bss = nat (sint (ArrayLength env arguments))"
    using arg_cong [OF assms, of length] by (simp add: java_strings_def)
  assume j: "j < nat (sint (ArrayLength env arguments))"
  then have "java_strings env arguments ! j =
      StringUTFChars env (ObjectArrayElement env arguments (of_nat j))"
    by (simp add: java_strings_def del: upt_Suc)
  with j len show "StringUTFChars env (ObjectArrayElement env arguments (of_nat j)) = Some (bss ! j)"
    by (simp add: assms)
qed

lemma owns_initial: "owns st [] st"
  by (auto simp: owns_def)

lemma marshal_Some:
  assumes "java_strings env arguments = map Some bss"
  shows "\<exists>args st1. marshal reallocates env arguments (ArrayLength env arguments) st =
             Inr (args, map Ptr args, st1) \<and>
           owns st args st1 \<and>
           map (heap st1) args = map (\<lambda>bs. Some (c_string bs @ [NUL])) bss"
proof -
  let ?argc = "ArrayLength env arguments"
  have utf: "\<forall>j. 0 \<le> j \<and> j < nat (sint ?argc) \<longrightarrow>
      StringUTFChars env (ObjectArrayElement env arguments (of_nat j)) = Some (bss ! j)"
    using java_strings_nth(2) [OF assms] by simp
  obtain args st1 where
    loop: "convert_loop reallocates env arguments ?argc (of_nat 0) [] st = Inr (args, st1)"
    and own: "owns st args st1"
    and contents: "map (heap st1) args =
        map (heap st) [] @ map (\<lambda>j. Some (c_string (bss ! j) @ [NUL])) [0..<nat (sint ?argc)]"
    using convert_loop_from [OF owns_initial _ utf, of reallocates st] by blast
  have "map (\<lambda>j. Some (c_string (bss ! j) @ [NUL])) [0..<length bss] =
      map (\<lambda>bs. Some (c_string bs @ [NUL])) bss"
    by (rule nth_equalityI) simp_all
  with contents have contents': "map (heap st1) args = map (\<lambda>bs. Some (c_string bs @ [NUL])) bss"
    by (simp add: java_strings_nth(1) [OF assms])
  have "length (map (heap st1) args) = length (map (\<lambda>bs. Some (c_string bs @ [NUL])) bss)"
    by (simp only: contents')
  then have len: "length args = nat (sint ?argc)"
    by (simp add: java_strings_nth(1) [OF assms])
  have "build_loop ?argc (of_nat 0) args [] = Inr ([] @ map Ptr (drop 0 args))"
    by (rule build_loop_from [OF len]) simp
  with loop have "marshal reallocates env arguments ?argc st = Inr (args, map Ptr args, st1)"
    by (simp add: marshal_def)
  with own contents' show ?thesis
    by blast
qed

lemma java_strings_None:
  assumes "None \<in> set (java_strings env arguments)"
  shows "\<exists>m<nat (sint (ArrayLength env arguments)).
           StringUTFChars env (ObjectArrayElement env arguments (of_nat m)) = None"
  using assms by (auto simp: java_strings_def)

lemma marshal_None:
  assumes "None \<in> set (java_strings env arguments)"
  shows "marshal reallocates env arguments (ArrayLength env arguments) st = Inl string_from_null"
proof -
  obtain m where "m < nat (sint (ArrayLength env arguments))"
    and "StringUTFChars env (ObjectArrayElement env arguments (of_nat m)) = None"
    using java_strings_None [OF assms] by blast
  then have "convert_loop reallocates env arguments (ArrayLength env arguments) (of_nat 0) [] st =
      Inl string_from_null"
    by (intro convert_loop_fails [of 0 m]) simp_all
  then show ?thesis
    by (simp add: marshal_def)
qed

lemma java_strings_cases:
  "None \<in> set (java_strings env arguments) \<or> (\<exists>bss. java_strings env arguments = map Some bss)"
proof (cases "None \<in> set (java_strings env arguments)")
  case True
  then show ?thesis ..
next
  case False
  then have "java_strings env arguments = map Some (map the (java_strings env arguments))"
    by (intro nth_equalityI) (auto simp: in_set_conv_nth)
  then show ?thesis
    by blast
qed

subsection \<open>The whole function\<close>

lemma fold_free:
  "heap (fold free v st) a = (if a \<in> set v then None else heap st a)"
  "brk (fold free v st) = brk st"
  "trace (fold free v st) = trace st"
  by (induction v arbitrary: st) (auto simp: free_def)

lemma startNode_Some:
  assumes "java_strings env arguments = map Some bss"
  shows "\<exists>args st1.
           marshal reallocates env arguments (GetArrayLength env arguments) st =
             Inr (args, map c_str args, st1) \<and>
           owns st args st1 \<and>
           map (heap st1) args = map (\<lambda>bs. Some (c_string bs @ [NUL])) bss \<and>
           Java_com_landseek_amphibian_service_AmphibianNative_startNode
               reallocates node_start env arguments st =
             Inr (node_start (GetArrayLength env arguments) (vector_data (map c_str args)) (heap st1),
                  destroy_strings args
                    (st1\<lparr>trace := trace st @
                       [starting_line,
                        node_Start (GetArrayLength env arguments) (vector_data (map c_str args)),
                        exited_line (node_start (GetArrayLength env arguments)
                          (vector_data (map c_str args)) (heap st1))]\<rparr>))"
proof -
  obtain args st1 where
    m: "marshal reallocates env arguments (ArrayLength env arguments) st =
          Inr (args, map Ptr args, st1)"
    and own: "owns st args st1"
    and contents: "map (heap st1) args = map (\<lambda>bs. Some (c_string bs @ [NUL])) bss"
    using marshal_Some [OF assms] by blast
  have ptr: "map c_str args = map Ptr args"
    by (simp add: c_str_def)
  have tr: "trace st1 = trace st"
    using own by (simp add: owns_def)
  have "Java_com_landseek_amphibian_service_AmphibianNative_startNode
          reallocates node_start env arguments st =
        Inr (node_start (GetArrayLength env arguments) (vector_data (map c_str args)) (heap st1),
             destroy_strings args
               (st1\<lparr>trace := trace st @
                  [starting_line,
                   node_Start (GetArrayLength env arguments) (vector_data (map c_str args)),
                   exited_line (node_start (GetArrayLength env arguments)
                     (vector_data (map c_str args)) (heap st1))]\<rparr>))"
    unfolding Java_com_landseek_amphibian_service_AmphibianNative_startNode_def
    by (simp add: GetArrayLength_def m ptr LOGD_def call_node_Start_def tr Let_def
        starting_line_def exited_line_def)
  with m own contents show ?thesis
    by (auto simp: GetArrayLength_def ptr)
qed

lemma startNode_None:
  assumes "None \<in> set (java_strings env arguments)"
  shows "Java_com_landseek_amphibian_service_AmphibianNative_startNode
           reallocates node_start env arguments st = Inl string_from_null"
  unfolding Java_com_landseek_amphibian_service_AmphibianNative_startNode_def
  by (simp add: GetArrayLength_def marshal_None [OF assms] Let_def)

lemma destroy_strings_state:
  "heap (destroy_strings v st) a = (if a \<in> set v then None else heap st a)"
  "brk (destroy_strings v st) = brk st"
  "trace (destroy_strings v st) = trace st"
  by (simp_all add: destroy_strings_def fold_free)

text \<open>
  A pointer taken from \<^verbatim>\<open>c_str()\<close> before a reallocating \<^verbatim>\<open>push_back\<close> is dead
  afterwards: the store has nothing at the old address.
\<close>

lemma push_back_string_kills:
  assumes "reallocates (length v)" and "distinct v" and "\<forall>a\<in>set v. a < brk st" and "a \<in> set v"
  shows "heap (snd (push_back_string reallocates v s st)) a = None"
  using assms relocate_heap [of v st a]
  by (simp add: push_back_string_def split_beta)

subsection \<open>Strings, log lines and the array\<close>

lemma c_string_id: "NUL \<notin> set bs \<Longrightarrow> c_string bs = bs"
  by (auto simp: c_string_def takeWhile_eq_all_conv)

lemma entries_vector_data: "entries (vector_data v) = v"
  by (simp add: vector_data_def)

lemma format_exited:
  "format ''Node.js exited with code: %d'' [r] = ''Node.js exited with code: '' @ dec_int (sint r)"
  by simp

lemma format_starting:
  "format ''Starting Embedded Node.js...'' [] = ''Starting Embedded Node.js...''"
  by simp

lemma log_line_lines:
  "log_line starting_line = Some ''Starting Embedded Node.js...''"
  "log_line (exited_line r) = Some (''Node.js exited with code: '' @ dec_int (sint r))"
  "log_line (node_Start argc argv) = None"
  by (simp_all add: starting_line_def exited_line_def format_starting format_exited
      del: format.simps)

lemma is_node_Start_lines [simp]:
  "\<not> is_node_Start starting_line"
  "\<not> is_node_Start (exited_line r)"
  by (simp_all add: starting_line_def exited_line_def)

lemma java_strings_nonpositive:
  assumes "sint (GetArrayLength env arguments) \<le> 0"
  shows "java_strings env arguments = map Some []"
  using assms by (simp add: java_strings_def GetArrayLength_def)

lemma java_strings_length:
  assumes "java_strings env arguments = map Some bss"
  shows "length bss = nat (sint (GetArrayLength env arguments))"
  using java_strings_nth(1) [OF assms] by (simp add: GetArrayLength_def)

lemma contents_length:
  assumes "map (heap st1) args = map (\<lambda>bs. Some (c_string bs @ [NUL])) bss"
  shows "length args = length bss"
proof -
  have "length (map (heap st1) args) = length (map (\<lambda>bs. Some (c_string bs @ [NUL])) bss)"
    by (simp only: assms)
  then show ?thesis
    by simp
qed

lemma contents_nth:
  assumes "map (heap st1) args = map (\<lambda>bs. Some (c_string bs @ [NUL])) bss" and "i < length bss"
  shows "heap st1 (args ! i) = Some (c_string (bss ! i) @ [NUL])"
proof -
  have "map (heap st1) args ! i = map (\<lambda>bs. Some (c_string bs @ [NUL])) bss ! i"
    by (simp only: assms(1))
  then show ?thesis
    using assms(2) contents_length [OF assms(1)] by simp
qed

section \<open>The claims\<close>

text \<open>
  C1. On every call whose element retrievals succeed, the bridge returns, \<^verbatim>\<open>node::Start\<close>
  is called exactly once, and the value returned to the caller is the value that call
  returned, whatever it is.
\<close>

theorem startNode_returns_node_result:
  assumes "java_strings env arguments = map Some bss"
  shows "\<exists>args argv st1 st'.
           marshal reallocates env arguments (GetArrayLength env arguments) st =
             Inr (args, argv, st1) \<and>
           startNode reallocates node_start env arguments st =
             Inr (node_start (GetArrayLength env arguments) (vector_data argv) (heap st1), st') \<and>
           filter is_node_Start (trace st') =
             filter is_node_Start (trace st) @
             [node_Start (GetArrayLength env arguments) (vector_data argv)]"
proof -
  obtain args st1 where
    m: "marshal reallocates env arguments (GetArrayLength env arguments) st =
          Inr (args, map c_str args, st1)"
    and run: "startNode reallocates node_start env arguments st =
          Inr (node_start (GetArrayLength env arguments) (vector_data (map c_str args)) (heap st1),
               destroy_strings args
                 (st1\<lparr>trace := trace st @
                    [starting_line,
                     node_Start (GetArrayLength env arguments) (vector_data (map c_str args)),
                     exited_line (node_start (GetArrayLength env arguments)
                       (vector_data (map c_str args)) (heap st1))]\<rparr>))"
    using startNode_Some [OF assms, of reallocates st node_start] by blast
  show ?thesis
    using m run by (intro exI conjI) (assumption, assumption, simp add: destroy_strings_state)
qed

theorem startNode_returns_node_result_witness:
  "java_strings list_env [Some ''--flag'', Some ''value''] = map Some [''--flag'', ''value''] \<and>
   (\<exists>args argv st1 st'.
      marshal (\<lambda>n. True) list_env [Some ''--flag'', Some ''value'']
          (GetArrayLength list_env [Some ''--flag'', Some ''value'']) empty_state =
        Inr (args, argv, st1) \<and>
      startNode (\<lambda>n. True) (\<lambda>argc p h. argc + 40) list_env
          [Some ''--flag'', Some ''value''] empty_state =
        Inr (GetArrayLength list_env [Some ''--flag'', Some ''value''] + 40, st') \<and>
      filter is_node_Start (trace st') =
        filter is_node_Start (trace empty_state) @
        [node_Start (GetArrayLength list_env [Some ''--flag'', Some ''value''])
           (vector_data argv)])"
proof -
  have h: "java_strings list_env [Some ''--flag'', Some ''value''] =
      map Some [''--flag'', ''value'']"
    by (simp add: java_strings_def list_env_def upt_rec)
  show ?thesis
    using h startNode_returns_node_result [OF h, of "\<lambda>n. True" empty_state "\<lambda>argc p h. argc + 40"]
    by simp
qed


text \<open>
  Without the condition on the retrievals the property fails: when the second element
  does not convert, the call is undefined, \<^verbatim>\<open>node::Start\<close> is not reached and no integer
  is returned.
\<close>

theorem startNode_undefined_call_counterexample:
  "startNode always_reallocates node_exit_0 list_env [Some ''--flag'', None] empty_state =
     Inl string_from_null"
proof -
  have "None \<in> set (java_strings list_env [Some ''--flag'', None])"
    by (simp add: java_strings_def list_env_def upt_rec)
  then show ?thesis
    by (rule startNode_None)
qed

text \<open>
  C2. For an array of \<open>N\<close> strings that all convert, the marshaller produces \<open>N\<close>
  pointers, and the \<open>i\<close>-th of them points at a live buffer holding the C string of the
  \<open>i\<close>-th element's bytes followed by the terminator: the bytes themselves, as modified
  UTF-8 contains no zero byte.
\<close>

theorem marshal_copies_every_string:
  assumes "java_strings env arguments = map Some bss"
  shows "\<exists>args argv st1.
           marshal reallocates env arguments (GetArrayLength env arguments) st =
             Inr (args, argv, st1) \<and>
           length bss = nat (sint (GetArrayLength env arguments)) \<and>
           length argv = length bss \<and>
           (\<forall>i<length bss.
              deref (heap st1) (argv ! i) = Some (c_string (bss ! i) @ [NUL]) \<and>
              (NUL \<notin> set (bss ! i) \<longrightarrow> deref (heap st1) (argv ! i) = Some (bss ! i @ [NUL])))"
proof -
  obtain args st1 where
    m: "marshal reallocates env arguments (GetArrayLength env arguments) st =
          Inr (args, map c_str args, st1)"
    and contents: "map (heap st1) args = map (\<lambda>bs. Some (c_string bs @ [NUL])) bss"
    using startNode_Some [OF assms, of reallocates st] by blast
  have len: "length args = length bss"
    by (rule contents_length [OF contents])
  have "deref (heap st1) (map c_str args ! i) = Some (c_string (bss ! i) @ [NUL]) \<and>
        (NUL \<notin> set (bss ! i) \<longrightarrow> deref (heap st1) (map c_str args ! i) = Some (bss ! i @ [NUL]))"
    if "i < length bss" for i
    using that len contents_nth [OF contents that] by (simp add: c_str_def c_string_id)
  then have each: "\<forall>i<length bss.
      deref (heap st1) (map c_str args ! i) = Some (c_string (bss ! i) @ [NUL]) \<and>
      (NUL \<notin> set (bss ! i) \<longrightarrow> deref (heap st1) (map c_str args ! i) = Some (bss ! i @ [NUL]))"
    by blast
  have len': "length (map c_str args) = length bss"
    using len by simp
  from m java_strings_length [OF assms] len' each show ?thesis
    by blast
qed

theorem marshal_copies_every_string_witness:
  "java_strings list_env [Some ''--flag'', Some ''value''] = map Some [''--flag'', ''value''] \<and>
   (\<exists>args argv st1.
      marshal (\<lambda>n. True) list_env [Some ''--flag'', Some ''value'']
          (GetArrayLength list_env [Some ''--flag'', Some ''value'']) empty_state =
        Inr (args, argv, st1) \<and>
      length argv = 2 \<and>
      deref (heap st1) (argv ! 0) = Some (''--flag'' @ [NUL]) \<and>
      deref (heap st1) (argv ! 1) = Some (''value'' @ [NUL]))"
proof -
  have h: "java_strings list_env [Some ''--flag'', Some ''value''] =
      map Some [''--flag'', ''value'']"
    by (simp add: java_strings_def list_env_def upt_rec)
  obtain args argv st1 where
    m: "marshal (\<lambda>n. True) list_env [Some ''--flag'', Some ''value'']
          (GetArrayLength list_env [Some ''--flag'', Some ''value'']) empty_state =
        Inr (args, argv, st1)"
    and len: "length argv = length [''--flag'', ''value'']"
    and each: "\<forall>i<length [''--flag'', ''value''].
        deref (heap st1) (argv ! i) = Some (c_string ([''--flag'', ''value''] ! i) @ [NUL]) \<and>
        (NUL \<notin> set ([''--flag'', ''value''] ! i) \<longrightarrow>
           deref (heap st1) (argv ! i) = Some ([''--flag'', ''value''] ! i @ [NUL]))"
    using marshal_copies_every_string [OF h, of "\<lambda>n. True" empty_state] by blast
  have "deref (heap st1) (argv ! 0) = Some (''--flag'' @ [NUL])"
    using each [rule_format, of 0] by (simp add: NUL_def c_string_def)
  moreover have "deref (heap st1) (argv ! 1) = Some (''value'' @ [NUL])"
    using each [rule_format, of 1] by (simp add: NUL_def c_string_def)
  ultimately show ?thesis
    using h m len by auto
qed

text \<open>
  C3. When the array reports length 0, no element is retrieved and no buffer is allocated
  or read, whatever the JNI would answer: both vectors stay empty, the store and the
  allocator are untouched, \<^verbatim>\<open>node::Start\<close> is called with \<open>argc = 0\<close> and a null data
  pointer, and its result is returned.
\<close>

theorem startNode_empty_array:
  assumes "GetArrayLength env arguments = 0"
  shows "marshal reallocates env arguments (GetArrayLength env arguments) st = Inr ([], [], st) \<and>
         startNode reallocates node_start env arguments st =
           Inr (node_start 0 NULL_pp (heap st),
                st\<lparr>trace := trace st @
                   [starting_line, node_Start 0 NULL_pp,
                    exited_line (node_start 0 NULL_pp (heap st))]\<rparr>)"
proof -
  have m: "marshal reallocates env arguments 0 st = Inr ([], [], st)"
    by (simp add: marshal_def)
  then show ?thesis
    unfolding Java_com_landseek_amphibian_service_AmphibianNative_startNode_def
    by (simp add: assms Let_def LOGD_def call_node_Start_def vector_data_def destroy_strings_def
        starting_line_def exited_line_def)
qed

theorem startNode_empty_array_witness:
  "GetArrayLength \<lparr>ArrayLength = (\<lambda>a. 0), ObjectArrayElement = (\<lambda>a i. ()),
       StringUTFChars = (\<lambda>s. None)\<rparr> () = 0 \<and>
   startNode (\<lambda>n. True) (\<lambda>argc p h. 5)
       \<lparr>ArrayLength = (\<lambda>a. 0), ObjectArrayElement = (\<lambda>a i. ()), StringUTFChars = (\<lambda>s. None)\<rparr>
       () empty_state =
     Inr (5, empty_state\<lparr>trace := [starting_line, node_Start 0 NULL_pp, exited_line 5]\<rparr>)"
proof -
  have h: "GetArrayLength \<lparr>ArrayLength = (\<lambda>a. 0), ObjectArrayElement = (\<lambda>a i. ()),
       StringUTFChars = (\<lambda>s. None)\<rparr> () = 0"
    by (simp add: GetArrayLength_def)
  show ?thesis
    using h startNode_empty_array [OF h, of "\<lambda>n. True" empty_state "\<lambda>argc p h. 5"]
    by (simp add: empty_state_def)
qed

text \<open>
  C4. A failed retrieval is not handled: when \<^verbatim>\<open>GetStringUTFChars\<close> fails for some
  element, the bridge builds a \<^verbatim>\<open>std::string\<close> from the null pointer, which is
  undefined; it returns no code of its own. When every retrieval succeeds the call is
  defined, and the value returned is the one \<^verbatim>\<open>node::Start\<close> returned.
\<close>

theorem startNode_has_no_error_path:
  "(None \<in> set (java_strings env arguments) \<longrightarrow>
      marshal reallocates env arguments (GetArrayLength env arguments) st =
        Inl string_from_null \<and>
      startNode reallocates node_start env arguments st = Inl string_from_null) \<and>
   (None \<notin> set (java_strings env arguments) \<longrightarrow>
      (\<exists>args argv st1 st'.
         marshal reallocates env arguments (GetArrayLength env arguments) st =
           Inr (args, argv, st1) \<and>
         startNode reallocates node_start env arguments st =
           Inr (node_start (GetArrayLength env arguments) (vector_data argv) (heap st1), st')))"
proof (intro conjI impI)
  assume "None \<in> set (java_strings env arguments)"
  then show "marshal reallocates env arguments (GetArrayLength env arguments) st =
      Inl string_from_null"
    by (simp add: GetArrayLength_def marshal_None)
next
  assume "None \<in> set (java_strings env arguments)"
  then show "startNode reallocates node_start env arguments st = Inl string_from_null"
    by (rule startNode_None)
next
  assume "None \<notin> set (java_strings env arguments)"
  then obtain bss where "java_strings env arguments = map Some bss"
    using java_strings_cases [of env arguments] by blast
  from startNode_Some [OF this, of reallocates st node_start]
  show "\<exists>args argv st1 st'.
      marshal reallocates env arguments (GetArrayLength env arguments) st =
        Inr (args, argv, st1) \<and>
      startNode reallocates node_start env arguments st =
        Inr (node_start (GetArrayLength env arguments) (vector_data argv) (heap st1), st')"
    by blast
qed

theorem startNode_has_no_error_path_witness:
  "None \<in> set (java_strings list_env [Some ''--flag'', None]) \<and>
   marshal (\<lambda>n. True) list_env [Some ''--flag'', None]
       (GetArrayLength list_env [Some ''--flag'', None]) empty_state =
     Inl string_from_null \<and>
   startNode (\<lambda>n. True) (\<lambda>argc p h. - 1) list_env [Some ''--flag'', None] empty_state =
     Inl string_from_null \<and>
   None \<notin> set (java_strings list_env [Some ''--flag'']) \<and>
   (\<exists>args argv st1 st'.
      marshal (\<lambda>n. True) list_env [Some ''--flag'']
          (GetArrayLength list_env [Some ''--flag'']) empty_state =
        Inr (args, argv, st1) \<and>
      startNode (\<lambda>n. True) (\<lambda>argc p h. - 1) list_env [Some ''--flag''] empty_state =
        Inr (- 1, st'))"
proof -
  have bad: "None \<in> set (java_strings list_env [Some ''--flag'', None])"
    by (simp add: java_strings_def list_env_def upt_rec)
  have good: "None \<notin> set (java_strings list_env [Some ''--flag''])"
    by (simp add: java_strings_def list_env_def upt_rec)
  show ?thesis
    using bad good
      startNode_has_no_error_path [of list_env "[Some ''--flag'', None]" "\<lambda>n. True"
        empty_state "\<lambda>argc p h. - 1"]
      startNode_has_no_error_path [of list_env "[Some ''--flag'']" "\<lambda>n. True"
        empty_state "\<lambda>argc p h. - 1"]
    by simp
qed

text \<open>
  C5. A call whose retrievals succeed adds three events to the trace, in this order: the
  log call with the starting message, the call of \<^verbatim>\<open>node::Start\<close>, and the log call
  whose format argument is the value \<^verbatim>\<open>node::Start\<close> returned, which is also the value
  the bridge returns. The second line reads \<open>Node.js exited with code: \<close> followed by
  that value in decimal; for 0 it is \<open>Node.js exited with code: 0\<close>.
\<close>

theorem startNode_logs_two_lines:
  assumes "java_strings env arguments = map Some bss"
  shows "\<exists>args argv st1 r st'.
           marshal reallocates env arguments (GetArrayLength env arguments) st =
             Inr (args, argv, st1) \<and>
           r = node_start (GetArrayLength env arguments) (vector_data argv) (heap st1) \<and>
           startNode reallocates node_start env arguments st = Inr (r, st') \<and>
           trace st' = trace st @
             [starting_line,
              node_Start (GetArrayLength env arguments) (vector_data argv),
              exited_line r] \<and>
           map log_line (drop (length (trace st)) (trace st')) =
             [Some ''Starting Embedded Node.js...'', None,
              Some (''Node.js exited with code: '' @ dec_int (sint r))] \<and>
           (r = 0 \<longrightarrow> log_line (last (trace st')) = Some ''Node.js exited with code: 0'')"
proof -
  obtain args st1 where
    m: "marshal reallocates env arguments (GetArrayLength env arguments) st =
          Inr (args, map c_str args, st1)"
    and run: "startNode reallocates node_start env arguments st =
          Inr (node_start (GetArrayLength env arguments) (vector_data (map c_str args)) (heap st1),
               destroy_strings args
                 (st1\<lparr>trace := trace st @
                    [starting_line,
                     node_Start (GetArrayLength env arguments) (vector_data (map c_str args)),
                     exited_line (node_start (GetArrayLength env arguments)
                       (vector_data (map c_str args)) (heap st1))]\<rparr>))"
    using startNode_Some [OF assms, of reallocates st node_start] by blast
  define r where "r = node_start (GetArrayLength env arguments) (vector_data (map c_str args)) (heap st1)"
  define st' where "st' = destroy_strings args
      (st1\<lparr>trace := trace st @
         [starting_line,
          node_Start (GetArrayLength env arguments) (vector_data (map c_str args)),
          exited_line r]\<rparr>)"
  have run': "startNode reallocates node_start env arguments st = Inr (r, st')"
    using run by (simp add: r_def st'_def)
  have tr: "trace st' = trace st @
      [starting_line,
       node_Start (GetArrayLength env arguments) (vector_data (map c_str args)),
       exited_line r]"
    by (simp add: st'_def destroy_strings_state)
  have lines: "map log_line (drop (length (trace st)) (trace st')) =
      [Some ''Starting Embedded Node.js...'', None,
       Some (''Node.js exited with code: '' @ dec_int (sint r))]"
    unfolding tr by (simp add: log_line_lines)
  have zero: "r = 0 \<longrightarrow> log_line (last (trace st')) = Some ''Node.js exited with code: 0''"
    unfolding tr by (simp add: log_line_lines dec_int_def)
  show ?thesis
    by (intro exI conjI) (rule m r_def run' tr lines zero)+
qed

theorem startNode_logs_two_lines_witness:
  "java_strings list_env [Some ''--flag'', Some ''value''] = map Some [''--flag'', ''value''] \<and>
   (\<exists>argv st'.
      startNode (\<lambda>n. True) (\<lambda>argc p h. 0) list_env [Some ''--flag'', Some ''value'']
          empty_state =
        Inr (0, st') \<and>
      trace st' = [starting_line, node_Start 2 (vector_data argv), exited_line 0] \<and>
      map log_line (trace st') =
        [Some ''Starting Embedded Node.js...'', None, Some ''Node.js exited with code: 0''])"
proof -
  have h: "java_strings list_env [Some ''--flag'', Some ''value''] =
      map Some [''--flag'', ''value'']"
    by (simp add: java_strings_def list_env_def upt_rec)
  have argc: "GetArrayLength list_env [Some ''--flag'', Some ''value''] = 2"
    by (simp add: GetArrayLength_def list_env_def)
  have zero: "''Node.js exited with code: '' @ dec_int (sint (0 :: jint)) =
      ''Node.js exited with code: 0''"
    by (simp add: dec_int_def)
  show ?thesis
    using h startNode_logs_two_lines [OF h, of "\<lambda>n. True" empty_state "\<lambda>argc p h. 0"]
    by (auto simp: argc empty_state_def zero simp del: append.simps)
qed

text \<open>
  Without the condition on the retrievals the property fails: when the only element does
  not convert, the call is undefined inside the marshalling, in front of the first log
  call.
\<close>

theorem startNode_undefined_before_logging_counterexample:
  "marshal always_reallocates list_env [None] (GetArrayLength list_env [None]) empty_state =
     Inl string_from_null \<and>
   startNode always_reallocates node_exit_0 list_env [None] empty_state = Inl string_from_null"
proof -
  have bad: "None \<in> set (java_strings list_env [None])"
    by (simp add: java_strings_def list_env_def)
  from marshal_None [OF bad] startNode_None [OF bad] show ?thesis
    by (simp add: GetArrayLength_def)
qed

text \<open>
  C6. The length the array reports is not checked. Whatever value \<open>argc\<close> has, both
  loops run \<open>max argc 0\<close> times, so that both vectors end with that many elements, and
  \<^verbatim>\<open>node::Start\<close> is called with \<open>argc\<close> as it is, a negative value included. For a
  non-positive \<open>argc\<close> no element is retrieved, so no retrieval can fail.
\<close>

theorem startNode_does_not_validate_argc:
  assumes "sint (GetArrayLength env arguments) \<le> 0 \<or>
           java_strings env arguments = map Some bss"
  shows "\<exists>args argv st1 st'.
           marshal reallocates env arguments (GetArrayLength env arguments) st =
             Inr (args, argv, st1) \<and>
           length args = nat (max (sint (GetArrayLength env arguments)) 0) \<and>
           length argv = nat (max (sint (GetArrayLength env arguments)) 0) \<and>
           startNode reallocates node_start env arguments st =
             Inr (node_start (GetArrayLength env arguments) (vector_data argv) (heap st1), st') \<and>
           filter is_node_Start (trace st') =
             filter is_node_Start (trace st) @
             [node_Start (GetArrayLength env arguments) (vector_data argv)]"
proof -
  obtain bss' where js: "java_strings env arguments = map Some bss'"
    using assms java_strings_nonpositive [of env arguments] by blast
  obtain args st1 where
    m: "marshal reallocates env arguments (GetArrayLength env arguments) st =
          Inr (args, map c_str args, st1)"
    and contents: "map (heap st1) args = map (\<lambda>bs. Some (c_string bs @ [NUL])) bss'"
    and run: "startNode reallocates node_start env arguments st =
          Inr (node_start (GetArrayLength env arguments) (vector_data (map c_str args)) (heap st1),
               destroy_strings args
                 (st1\<lparr>trace := trace st @
                    [starting_line,
                     node_Start (GetArrayLength env arguments) (vector_data (map c_str args)),
                     exited_line (node_start (GetArrayLength env arguments)
                       (vector_data (map c_str args)) (heap st1))]\<rparr>))"
    using startNode_Some [OF js, of reallocates st node_start] by blast
  have len: "length args = nat (max (sint (GetArrayLength env arguments)) 0)"
    using contents_length [OF contents] java_strings_length [OF js] by (simp add: max_def)
  then have len': "length (map c_str args) = nat (max (sint (GetArrayLength env arguments)) 0)"
    by simp
  have calls: "filter is_node_Start
        (trace (destroy_strings args
           (st1\<lparr>trace := trace st @
              [starting_line,
               node_Start (GetArrayLength env arguments) (vector_data (map c_str args)),
               exited_line (node_start (GetArrayLength env arguments)
                 (vector_data (map c_str args)) (heap st1))]\<rparr>))) =
      filter is_node_Start (trace st) @
      [node_Start (GetArrayLength env arguments) (vector_data (map c_str args))]"
    by (simp add: destroy_strings_state)
  show ?thesis
    by (intro exI conjI) (rule m len len' run calls)+
qed

theorem startNode_does_not_validate_argc_witness:
  "sint (GetArrayLength \<lparr>ArrayLength = (\<lambda>a. - 1), ObjectArrayElement = (\<lambda>a i. ()),
       StringUTFChars = (\<lambda>s. None)\<rparr> ()) \<le> 0 \<and>
   (\<exists>st'. startNode (\<lambda>n. True) (\<lambda>argc p h. argc)
       \<lparr>ArrayLength = (\<lambda>a. - 1), ObjectArrayElement = (\<lambda>a i. ()), StringUTFChars = (\<lambda>s. None)\<rparr>
       () empty_state = Inr (- 1, st') \<and>
     filter is_node_Start (trace st') = [node_Start (- 1) NULL_pp])"
proof -
  let ?env = "\<lparr>ArrayLength = (\<lambda>a :: unit. - 1 :: jint), ObjectArrayElement = (\<lambda>(a :: unit) i. ()),
       StringUTFChars = (\<lambda>s :: unit. None)\<rparr>"
  have argc: "GetArrayLength ?env () = - 1"
    by (simp add: GetArrayLength_def)
  have h: "sint (GetArrayLength ?env ()) \<le> 0 \<or> java_strings ?env () = map Some []"
    by (simp add: argc)
  have empty: "vector_data argv = NULL_pp" if "length argv = 0" for argv
    using that by (simp add: vector_data_def)
  show ?thesis
    using h startNode_does_not_validate_argc [OF h, of "\<lambda>n. True" empty_state "\<lambda>argc p h. argc"]
    by (auto simp: argc empty_state_def empty)
qed

text \<open>
  Without the condition on the retrievals the property fails: for \<open>argc = 2\<close> and a
  second element that does not convert, the first loop ends in undefined behaviour in its
  second iteration, and \<^verbatim>\<open>node::Start\<close> is not called.
\<close>

theorem convert_loop_stops_early_counterexample:
  "GetArrayLength list_env [Some ''a'', None] = 2 \<and>
   convert_loop always_reallocates list_env [Some ''a'', None] 2 0 [] empty_state =
     Inl string_from_null \<and>
   startNode always_reallocates node_exit_0 list_env [Some ''a'', None] empty_state =
     Inl string_from_null"
proof -
  have argc: "GetArrayLength list_env [Some ''a'', None] = 2"
    by (simp add: GetArrayLength_def list_env_def)
  have bad: "None \<in> set (java_strings list_env [Some ''a'', None])"
    by (simp add: java_strings_def list_env_def upt_rec)
  have "StringUTFChars list_env (ObjectArrayElement list_env [Some ''a'', None] (of_nat 1)) = None"
    by (simp add: list_env_def)
  then have "convert_loop always_reallocates list_env [Some ''a'', None] 2 (of_nat 0) []
      empty_state = Inl string_from_null"
    by (intro convert_loop_fails [of 0 1]) simp_all
  with argc startNode_None [OF bad] show ?thesis
    by simp
qed

text \<open>
  C7. A call whose retrievals succeed leaves the store as it found it: every buffer
  allocated during the call, by the JNI or by the strings, has been released at the
  return. While \<^verbatim>\<open>node::Start\<close> runs, the only buffers added to the store are those of
  \<open>args\<close>, and whatever was in the store before the call still holds the same bytes.
  The trace grows by the two log calls and the call of \<^verbatim>\<open>node::Start\<close>, and by nothing
  else. The Java array and its strings are reached through \<^verbatim>\<open>GetArrayLength\<close>,
  \<^verbatim>\<open>GetObjectArrayElement\<close> and \<^verbatim>\<open>GetStringUTFChars\<close> only, which read.
\<close>

theorem startNode_leaves_no_state:
  assumes "java_strings env arguments = map Some bss"
    and "\<forall>a\<ge>brk st. heap st a = None"
  shows "\<exists>args argv st1 r st'.
           marshal reallocates env arguments (GetArrayLength env arguments) st =
             Inr (args, argv, st1) \<and>
           dom (heap st1) = dom (heap st) \<union> set args \<and>
           dom (heap st) \<inter> set args = {} \<and>
           heap st1 |` dom (heap st) = heap st \<and>
           startNode reallocates node_start env arguments st = Inr (r, st') \<and>
           heap st' = heap st \<and>
           trace st' = trace st @
             [starting_line,
              node_Start (GetArrayLength env arguments) (vector_data argv),
              exited_line r]"
proof -
  obtain args st1 where
    m: "marshal reallocates env arguments (GetArrayLength env arguments) st =
          Inr (args, map c_str args, st1)"
    and own: "owns st args st1"
    and contents: "map (heap st1) args = map (\<lambda>bs. Some (c_string bs @ [NUL])) bss"
    and run: "startNode reallocates node_start env arguments st =
          Inr (node_start (GetArrayLength env arguments) (vector_data (map c_str args)) (heap st1),
               destroy_strings args
                 (st1\<lparr>trace := trace st @
                    [starting_line,
                     node_Start (GetArrayLength env arguments) (vector_data (map c_str args)),
                     exited_line (node_start (GetArrayLength env arguments)
                       (vector_data (map c_str args)) (heap st1))]\<rparr>))"
    using startNode_Some [OF assms(1), of reallocates st node_start] by blast
  define r where "r = node_start (GetArrayLength env arguments) (vector_data (map c_str args)) (heap st1)"
  define st' where "st' = destroy_strings args
      (st1\<lparr>trace := trace st @
         [starting_line,
          node_Start (GetArrayLength env arguments) (vector_data (map c_str args)),
          exited_line r]\<rparr>)"
  have run': "startNode reallocates node_start env arguments st = Inr (r, st')"
    using run by (simp add: r_def st'_def)
  have above: "\<forall>a\<in>set args. brk st \<le> a"
    and rest: "\<And>a. a \<notin> set args \<Longrightarrow>
        heap st1 a = (if brk st \<le> a \<and> a < brk st1 then None else heap st a)"
    using own by (auto simp: owns_def)
  have fresh: "heap st a = None" if "a \<in> set args" for a
    using that above assms(2) by simp
  have unchanged: "heap st1 a = heap st a" if "a \<notin> set args" for a
    using rest [OF that] assms(2) by simp
  have live: "heap st1 a \<noteq> None" if mem: "a \<in> set args" for a
  proof -
    obtain i where i: "i < length args" and a: "a = args ! i"
      using mem by (auto simp: in_set_conv_nth)
    have "i < length bss"
      using i contents_length [OF contents] by simp
    from contents_nth [OF contents this] show ?thesis
      by (simp add: a)
  qed
  have dom1: "dom (heap st1) = dom (heap st) \<union> set args"
    using fresh unchanged live by (auto simp: dom_def) metis+
  have disj: "dom (heap st) \<inter> set args = {}"
    using fresh by auto
  have kept: "heap st1 |` dom (heap st) = heap st"
  proof
    fix a
    show "(heap st1 |` dom (heap st)) a = heap st a"
    proof (cases "a \<in> dom (heap st)")
      case True
      then have "a \<notin> set args"
        using fresh [of a] by auto
      then have "heap st1 a = heap st a"
        by (rule unchanged)
      with True show ?thesis
        by simp
    next
      case False
      then show ?thesis
        by (simp add: restrict_map_def dom_def)
    qed
  qed
  have heap': "heap st' = heap st"
  proof
    fix a
    show "heap st' a = heap st a"
      using fresh [of a] unchanged [of a] by (simp add: st'_def destroy_strings_state)
  qed
  have tr: "trace st' = trace st @
      [starting_line,
       node_Start (GetArrayLength env arguments) (vector_data (map c_str args)),
       exited_line r]"
    by (simp add: st'_def destroy_strings_state)
  show ?thesis
    by (intro exI conjI) (rule m dom1 disj kept run' heap' tr)+
qed

theorem startNode_leaves_no_state_witness:
  "java_strings list_env [Some ''--flag'', Some ''value''] = map Some [''--flag'', ''value''] \<and>
   (\<exists>r st'.
      startNode (\<lambda>n. True) (\<lambda>argc p h. argc) list_env [Some ''--flag'', Some ''value'']
          empty_state =
        Inr (r, st') \<and>
      heap st' = Map.empty \<and> length (trace st') = 3)"
proof -
  have h: "java_strings list_env [Some ''--flag'', Some ''value''] =
      map Some [''--flag'', ''value'']"
    by (simp add: java_strings_def list_env_def upt_rec)
  have wf: "\<forall>a\<ge>brk empty_state. heap empty_state a = None"
    by (simp add: empty_state_def)
  show ?thesis
    using h startNode_leaves_no_state [OF h wf, of "\<lambda>n. True" "\<lambda>argc p h. argc"]
    by (auto simp: empty_state_def)
qed

text \<open>
  Without the condition on the retrievals the property fails: when the second element
  does not convert, the first iteration has left the buffer of the first string in the
  store, and the call is undefined in the second, where no destructor runs.
\<close>

theorem startNode_leaves_buffer_counterexample:
  "convert_body always_reallocates list_env [Some ''a'', None] 0 [] empty_state =
     Inr ([1], \<lparr>heap = [1 \<mapsto> ''a'' @ [NUL]], brk = 2, trace = []\<rparr>) \<and>
   startNode always_reallocates node_exit_0 list_env [Some ''a'', None] empty_state =
     Inl string_from_null"
proof -
  have bad: "None \<in> set (java_strings list_env [Some ''a'', None])"
    by (simp add: java_strings_def list_env_def upt_rec)
  have "convert_body always_reallocates list_env [Some ''a'', None] 0 [] empty_state =
      Inr ([1], \<lparr>heap = [1 \<mapsto> ''a'' @ [NUL]], brk = 2, trace = []\<rparr>)"
    by (simp add: convert_body_def GetObjectArrayElement_def GetStringUTFChars_def list_env_def
        alloc_def empty_state_def std_string_def c_string_def NUL_def push_back_string_def
        always_reallocates_def ReleaseStringUTFChars_def free_def fun_upd_twist)
  with startNode_None [OF bad] show ?thesis
    by simp
qed

text \<open>
  C8. Whatever the growth policy of the vector, at the call of \<^verbatim>\<open>node::Start\<close> the
  pointer array is \<open>map c_str args\<close> for the finished vector \<open>args\<close>: the \<open>i\<close>-th
  pointer is the \<^verbatim>\<open>c_str()\<close> of \<open>args[i]\<close>, the buffers are pairwise distinct, and
  each is live in the store that \<^verbatim>\<open>node::Start\<close> reads and holds the \<open>i\<close>-th string. No
  pointer in \<open>argv\<close> was taken before the last \<^verbatim>\<open>push_back\<close> onto \<open>args\<close>.
\<close>

theorem argv_points_into_args:
  assumes "java_strings env arguments = map Some bss"
  shows "\<exists>args st1 st'.
           marshal reallocates env arguments (GetArrayLength env arguments) st =
             Inr (args, map c_str args, st1) \<and>
           startNode reallocates node_start env arguments st =
             Inr (node_start (GetArrayLength env arguments) (vector_data (map c_str args))
                    (heap st1), st') \<and>
           length args = nat (sint (GetArrayLength env arguments)) \<and>
           distinct args \<and>
           (\<forall>i<length args.
              map c_str args ! i = Ptr (args ! i) \<and>
              deref (heap st1) (map c_str args ! i) = Some (c_string (bss ! i) @ [NUL]))"
proof -
  obtain args st1 where
    m: "marshal reallocates env arguments (GetArrayLength env arguments) st =
          Inr (args, map c_str args, st1)"
    and own: "owns st args st1"
    and contents: "map (heap st1) args = map (\<lambda>bs. Some (c_string bs @ [NUL])) bss"
    and run: "startNode reallocates node_start env arguments st =
          Inr (node_start (GetArrayLength env arguments) (vector_data (map c_str args)) (heap st1),
               destroy_strings args
                 (st1\<lparr>trace := trace st @
                    [starting_line,
                     node_Start (GetArrayLength env arguments) (vector_data (map c_str args)),
                     exited_line (node_start (GetArrayLength env arguments)
                       (vector_data (map c_str args)) (heap st1))]\<rparr>))"
    using startNode_Some [OF assms, of reallocates st node_start] by blast
  have len: "length args = nat (sint (GetArrayLength env arguments))"
    using contents_length [OF contents] java_strings_length [OF assms] by simp
  have d: "distinct args"
    using own by (simp add: owns_def)
  have each: "\<forall>i<length args.
      map c_str args ! i = Ptr (args ! i) \<and>
      deref (heap st1) (map c_str args ! i) = Some (c_string (bss ! i) @ [NUL])"
  proof (intro allI impI)
    fix i
    assume i: "i < length args"
    then have "i < length bss"
      using contents_length [OF contents] by simp
    from contents_nth [OF contents this] i
    show "map c_str args ! i = Ptr (args ! i) \<and>
        deref (heap st1) (map c_str args ! i) = Some (c_string (bss ! i) @ [NUL])"
      by (simp add: c_str_def)
  qed
  show ?thesis
    by (intro exI conjI) (rule m run len d each)+
qed

theorem argv_points_into_args_witness:
  "java_strings list_env [Some ''--flag'', Some ''value''] = map Some [''--flag'', ''value''] \<and>
   (\<exists>args st1 st'.
      marshal (\<lambda>n. True) list_env [Some ''--flag'', Some ''value'']
          (GetArrayLength list_env [Some ''--flag'', Some ''value'']) empty_state =
        Inr (args, map c_str args, st1) \<and>
      startNode (\<lambda>n. True) (\<lambda>argc p h. argc) list_env [Some ''--flag'', Some ''value'']
          empty_state =
        Inr (2, st') \<and>
      length args = 2 \<and> distinct args \<and>
      deref (heap st1) (map c_str args ! 0) = Some (''--flag'' @ [NUL]) \<and>
      deref (heap st1) (map c_str args ! 1) = Some (''value'' @ [NUL]))"
proof -
  have h: "java_strings list_env [Some ''--flag'', Some ''value''] =
      map Some [''--flag'', ''value'']"
    by (simp add: java_strings_def list_env_def upt_rec)
  have argc: "GetArrayLength list_env [Some ''--flag'', Some ''value''] = 2"
    by (simp add: GetArrayLength_def list_env_def)
  obtain args st1 st' where
    m: "marshal (\<lambda>n. True) list_env [Some ''--flag'', Some ''value'']
          (GetArrayLength list_env [Some ''--flag'', Some ''value'']) empty_state =
        Inr (args, map c_str args, st1)"
    and run: "startNode (\<lambda>n. True) (\<lambda>argc p h. argc) list_env [Some ''--flag'', Some ''value'']
          empty_state =
        Inr (GetArrayLength list_env [Some ''--flag'', Some ''value''], st')"
    and len: "length args = nat (sint (GetArrayLength list_env [Some ''--flag'', Some ''value'']))"
    and d: "distinct args"
    and each: "\<forall>i<length args.
        map c_str args ! i = Ptr (args ! i) \<and>
        deref (heap st1) (map c_str args ! i) =
          Some (c_string ([''--flag'', ''value''] ! i) @ [NUL])"
    using argv_points_into_args [OF h, of "\<lambda>n. True" empty_state "\<lambda>argc p h. argc"]
    by (elim exE conjE)
  have len2: "length args = 2"
    using len by (simp add: argc)
  have e0: "deref (heap st1) (map c_str args ! 0) = Some (''--flag'' @ [NUL])"
    using each [rule_format, of 0] len2 by (simp add: c_string_def NUL_def c_str_def)
  have e1: "deref (heap st1) (map c_str args ! 1) = Some (''value'' @ [NUL])"
    using each [rule_format, of 1] len2 by (simp add: c_string_def NUL_def c_str_def)
  have run2: "startNode (\<lambda>n. True) (\<lambda>argc p h. argc) list_env [Some ''--flag'', Some ''value'']
          empty_state = Inr (2, st')"
    using run by (simp add: argc)
  show ?thesis
    by (intro conjI exI) (rule h m run2 len2 d e0 e1)+
qed

text \<open>
  C9. The pointer array handed to \<^verbatim>\<open>node::Start\<close> has exactly \<open>argc\<close> entries, none of
  them null, and nothing can be read at index \<open>argc\<close>: there is no terminating null
  entry. When there is no entry at all, the data pointer is null.
\<close>

theorem argv_has_no_sentinel:
  assumes "java_strings env arguments = map Some bss"
  shows "\<exists>p r st'.
           startNode reallocates node_start env arguments st = Inr (r, st') \<and>
           filter is_node_Start (trace st') =
             filter is_node_Start (trace st) @ [node_Start (GetArrayLength env arguments) p] \<and>
           length (entries p) = nat (sint (GetArrayLength env arguments)) \<and>
           NULL \<notin> set (entries p) \<and>
           index_pp p (nat (sint (GetArrayLength env arguments))) = None \<and>
           (nat (sint (GetArrayLength env arguments)) = 0 \<longrightarrow> p = NULL_pp)"
proof -
  obtain args st1 where
    contents: "map (heap st1) args = map (\<lambda>bs. Some (c_string bs @ [NUL])) bss"
    and run: "startNode reallocates node_start env arguments st =
          Inr (node_start (GetArrayLength env arguments) (vector_data (map c_str args)) (heap st1),
               destroy_strings args
                 (st1\<lparr>trace := trace st @
                    [starting_line,
                     node_Start (GetArrayLength env arguments) (vector_data (map c_str args)),
                     exited_line (node_start (GetArrayLength env arguments)
                       (vector_data (map c_str args)) (heap st1))]\<rparr>))"
    using startNode_Some [OF assms, of reallocates st node_start] by blast
  define p where "p = vector_data (map c_str args)"
  have len: "length args = nat (sint (GetArrayLength env arguments))"
    using contents_length [OF contents] java_strings_length [OF assms] by simp
  have calls: "filter is_node_Start
        (trace (destroy_strings args
           (st1\<lparr>trace := trace st @
              [starting_line,
               node_Start (GetArrayLength env arguments) p,
               exited_line (node_start (GetArrayLength env arguments) p (heap st1))]\<rparr>))) =
      filter is_node_Start (trace st) @ [node_Start (GetArrayLength env arguments) p]"
    by (simp add: destroy_strings_state)
  have n: "length (entries p) = nat (sint (GetArrayLength env arguments))"
    using len by (simp add: p_def entries_vector_data)
  have nonnull: "NULL \<notin> set (entries p)"
    by (auto simp: p_def entries_vector_data c_str_def)
  have beyond: "index_pp p (nat (sint (GetArrayLength env arguments))) = None"
    using len by (simp add: p_def vector_data_def)
  have null: "nat (sint (GetArrayLength env arguments)) = 0 \<longrightarrow> p = NULL_pp"
    using len by (auto simp: p_def vector_data_def)
  show ?thesis
    by (intro exI conjI) (rule run [folded p_def] calls n nonnull beyond null)+
qed

theorem argv_has_no_sentinel_witness:
  "java_strings list_env [Some ''--flag'', Some ''value''] = map Some [''--flag'', ''value''] \<and>
   (\<exists>p r st'.
      startNode (\<lambda>n. True) (\<lambda>argc p h. argc) list_env [Some ''--flag'', Some ''value'']
          empty_state =
        Inr (r, st') \<and>
      filter is_node_Start (trace st') = [node_Start 2 p] \<and>
      length (entries p) = 2 \<and> NULL \<notin> set (entries p) \<and> index_pp p 2 = None)"
proof -
  have h: "java_strings list_env [Some ''--flag'', Some ''value''] =
      map Some [''--flag'', ''value'']"
    by (simp add: java_strings_def list_env_def upt_rec)
  have argc: "GetArrayLength list_env [Some ''--flag'', Some ''value''] = 2"
    by (simp add: GetArrayLength_def list_env_def)
  show ?thesis
    using h argv_has_no_sentinel [OF h, of "\<lambda>n. True" "\<lambda>argc p h. argc" empty_state]
    by (auto simp: argc empty_state_def)
qed

text \<open>
  C10. The result of a call is a function of the array and of what \<^verbatim>\<open>node::Start\<close>
  computes. If \<^verbatim>\<open>node::Start\<close> depends only on \<open>argc\<close> and on the strings its pointers
  lead to, then two calls on the same array have the same outcome (the same returned
  integer, or both undefined), whatever the store, the trace, the allocator and the
  growth policy of the vector are at each call.
\<close>

theorem startNode_deterministic:
  assumes "\<forall>argc p h p' h'.
             map (deref h) (entries p) = map (deref h') (entries p') \<longrightarrow>
             node_start argc p h = node_start argc p' h'"
  shows "map_sum id fst (startNode reallocates node_start env arguments st) =
         map_sum id fst (startNode reallocates' node_start env arguments st')"
proof -
  consider (fails) "None \<in> set (java_strings env arguments)"
    | (converts) bss where "java_strings env arguments = map Some bss"
    using java_strings_cases [of env arguments] by blast
  then show ?thesis
  proof cases
    case fails
    then show ?thesis
      by (simp add: startNode_None)
  next
    case converts
    obtain args1 and st1 :: state where
      contents1: "map (heap st1) args1 = map (\<lambda>bs. Some (c_string bs @ [NUL])) bss"
      and run1: "\<exists>s. startNode reallocates node_start env arguments st =
            Inr (node_start (GetArrayLength env arguments) (vector_data (map c_str args1))
                   (heap st1), s)"
      using startNode_Some [OF converts, of reallocates st node_start] by blast
    obtain args2 and st2 :: state where
      contents2: "map (heap st2) args2 = map (\<lambda>bs. Some (c_string bs @ [NUL])) bss"
      and run2: "\<exists>s. startNode reallocates' node_start env arguments st' =
            Inr (node_start (GetArrayLength env arguments) (vector_data (map c_str args2))
                   (heap st2), s)"
      using startNode_Some [OF converts, of reallocates' st' node_start] by blast
    have seen: "map (deref h) (entries (vector_data (map c_str args))) = map h args" for h args
      by (simp add: entries_vector_data c_str_def comp_def)
    have "map (deref (heap st1)) (entries (vector_data (map c_str args1))) =
        map (deref (heap st2)) (entries (vector_data (map c_str args2)))"
      by (simp only: seen contents1 contents2)
    then have "node_start (GetArrayLength env arguments) (vector_data (map c_str args1)) (heap st1) =
        node_start (GetArrayLength env arguments) (vector_data (map c_str args2)) (heap st2)"
      using assms by blast
    with run1 run2 show ?thesis
      by auto
  qed
qed

theorem startNode_deterministic_witness:
  "map_sum id fst
     (startNode (\<lambda>n. True) (\<lambda>argc p h. argc + of_nat (length (map (deref h) (entries p))))
        list_env [Some ''--flag'', Some ''value''] empty_state) =
   map_sum id fst
     (startNode (\<lambda>n. False) (\<lambda>argc p h. argc + of_nat (length (map (deref h) (entries p))))
        list_env [Some ''--flag'', Some ''value'']
        \<lparr>heap = [0 \<mapsto> ''x''], brk = 7, trace = [starting_line]\<rparr>)"
proof -
  have det: "\<forall>argc p h p' h'.
      map (deref h) (entries p) = map (deref h') (entries p') \<longrightarrow>
      argc + of_nat (length (map (deref h) (entries p))) =
      argc + (of_nat (length (map (deref h') (entries p'))) :: jint)"
    by (metis (no_types))
  show ?thesis
    using
      startNode_deterministic [of "\<lambda>argc p h. argc + of_nat (length (map (deref h) (entries p)))",
        OF det, of "\<lambda>n. True" list_env "[Some ''--flag'', Some ''value'']" empty_state
        "\<lambda>n. False" "\<lparr>heap = [0 \<mapsto> ''x''], brk = 7, trace = [starting_line]\<rparr>"]
    by blast
qed

end
